theory Spec2Isabelle
  imports Main "HOL-Library.Word" "HOL-Library.Monad_Syntax"
begin

unbundle bit_operations_syntax

text \<open>
  A model of \<^verbatim>\<open>src/native/ping_helper.c\<close>, the hardened of the two variants of the ICMP
  echo probe: its checksum, the echo request it builds, its deadline arithmetic, the
  checks it applies to a received datagram, and \<^verbatim>\<open>main\<close> with its receive loop. Line
  numbers refer to that file. What the program obtains from the operating system (clock
  readings, results of system calls, received bytes) is an input of the model.
\<close>

section \<open>Deadline tracking (lines 171--207)\<close>

text \<open>
  \<^verbatim>\<open>struct timeval\<close>: seconds and microseconds. Both fields are signed \<^verbatim>\<open>long\<close> in C;
  they are modelled as \<open>int\<close>: the program adds at most 61 seconds to a clock reading
  and subtracts two clock readings, which stays far inside the 64-bit range.
\<close>

record timeval =
  tv_sec :: int
  tv_usec :: int

text \<open>A clock reading as \<^verbatim>\<open>gettimeofday\<close> delivers it: microseconds in \<open>[0, 1000000)\<close>.\<close>

definition wf_timeval :: "timeval \<Rightarrow> bool" where
  "wf_timeval t \<longleftrightarrow> 0 \<le> tv_usec t \<and> tv_usec t < 1000000"

text \<open>The point in time a \<^verbatim>\<open>timeval\<close> denotes, in microseconds.\<close>

definition to_usec :: "timeval \<Rightarrow> int" where
  "to_usec t = tv_sec t * 1000000 + tv_usec t"

text \<open>
  Lines 172--178: the absolute deadline. \<^verbatim>\<open>timeout_ms\<close> is positive here (lines 70--77),
  so C's truncating \<^verbatim>\<open>/\<close> and \<^verbatim>\<open>%\<close> agree with \<open>div\<close> and \<open>mod\<close>.
\<close>

definition compute_deadline :: "timeval \<Rightarrow> int \<Rightarrow> timeval" where
  "compute_deadline start_time timeout_ms =
     (let sec = tv_sec start_time + timeout_ms div 1000;
          usec = tv_usec start_time + (timeout_ms mod 1000) * 1000
      in if usec \<ge> 1000000
         then \<lparr>tv_sec = sec + 1, tv_usec = usec - 1000000\<rparr>
         else \<lparr>tv_sec = sec, tv_usec = usec\<rparr>)"

text \<open>
  Lines 192--207: the remaining time until the deadline, with the borrow of one second
  when the microsecond difference is negative. \<open>None\<close> is the branch that closes the
  socket and returns 7 (the deadline has expired); \<open>Some r\<close> is the value handed to
  \<^verbatim>\<open>select\<close>.
\<close>

definition remaining_time :: "timeval \<Rightarrow> timeval \<Rightarrow> timeval option" where
  "remaining_time deadline now =
     (let sec = tv_sec deadline - tv_sec now;
          usec = tv_usec deadline - tv_usec now;
          sec' = (if usec < 0 then sec - 1 else sec);
          usec' = (if usec < 0 then usec + 1000000 else usec)
      in if sec' < 0 \<or> (sec' = 0 \<and> usec' \<le> 0)
         then None
         else Some \<lparr>tv_sec = sec', tv_usec = usec'\<rparr>)"

section \<open>Byte order\<close>

text \<open>
  The program reads and writes 16-bit header fields through \<^verbatim>\<open>unsigned short\<close> pointers
  into byte buffers, and converts with \<^verbatim>\<open>htons\<close>/\<^verbatim>\<open>ntohs\<close>. What such an access yields
  depends on the byte order of the host, which is a parameter \<open>le\<close> of the model
  (\<open>True\<close> on a little-endian host). \<open>b0\<close> is the byte at the lower address.
\<close>

type_synonym byte = "8 word"

definition be16 :: "byte \<Rightarrow> byte \<Rightarrow> 16 word" where
  "be16 hi lo = push_bit 8 (ucast hi) OR ucast lo"

definition word16 :: "bool \<Rightarrow> byte \<Rightarrow> byte \<Rightarrow> 16 word" where
  "word16 le b0 b1 = (if le then be16 b1 b0 else be16 b0 b1)"

definition bytes16 :: "bool \<Rightarrow> 16 word \<Rightarrow> byte \<times> byte" where
  "bytes16 le w =
     (if le then (ucast w, ucast (drop_bit 8 w)) else (ucast (drop_bit 8 w), ucast w))"

definition store16 :: "bool \<Rightarrow> byte list \<Rightarrow> nat \<Rightarrow> 16 word \<Rightarrow> byte list" where
  "store16 le buf off w = (case bytes16 le w of (b0, b1) \<Rightarrow> buf[off := b0, Suc off := b1])"

definition htons :: "bool \<Rightarrow> 16 word \<Rightarrow> 16 word" where
  "htons le w = (if le then push_bit 8 w OR drop_bit 8 w else w)"

definition ntohs :: "bool \<Rightarrow> 16 word \<Rightarrow> 16 word" where
  "ntohs le w = (if le then push_bit 8 w OR drop_bit 8 w else w)"

section \<open>Checksum (lines 34--49)\<close>

text \<open>
  The accumulation loop of \<^verbatim>\<open>checksum\<close>: two bytes are consumed per round while
  \<^verbatim>\<open>len > 1\<close>; a single remaining byte is added shifted left by 8. The accumulator \<open>acc\<close> is
  the variable \<^verbatim>\<open>sum\<close>, an \<^verbatim>\<open>unsigned int\<close>, so the additions wrap at 32 bits.
\<close>

fun sum_words :: "bool \<Rightarrow> byte list \<Rightarrow> 32 word \<Rightarrow> 32 word" where
  "sum_words le (b0 # b1 # rest) acc = sum_words le rest (acc + ucast (word16 le b0 b1))"
| "sum_words le [b] acc = acc + push_bit 8 (ucast b)"
| "sum_words le [] acc = acc"

text \<open>Lines 45--48: the carries are folded in twice, the complement is cut to 16 bits.\<close>

definition fold_carries :: "32 word \<Rightarrow> 16 word" where
  "fold_carries sum0 =
     (let sum1 = drop_bit 16 sum0 + (sum0 AND 0xFFFF);
          sum2 = sum1 + drop_bit 16 sum1
      in ucast (NOT sum2))"

definition checksum :: "bool \<Rightarrow> byte list \<Rightarrow> 16 word" where
  "checksum le b = fold_carries (sum_words le b 0)"

text \<open>The arithmetic of \<open>fold_carries\<close> on natural numbers, used in the proofs.\<close>

definition nfold :: "nat \<Rightarrow> nat" where
  "nfold s =
     (let s1 = s div 65536 + s mod 65536; s2 = s1 + s1 div 65536 in 65535 - s2 mod 65536)"

section \<open>Echo request (lines 145--155)\<close>

definition PACKET_SIZE :: nat where "PACKET_SIZE = 64"
definition ICMP_HEADER_SIZE :: int where "ICMP_HEADER_SIZE = 8"

text \<open>Constants of the system headers: \<^verbatim>\<open>ICMP_ECHO\<close>, \<^verbatim>\<open>ICMP_ECHOREPLY\<close>, \<^verbatim>\<open>IPPROTO_ICMP\<close>.\<close>

definition ICMP_ECHO :: byte where "ICMP_ECHO = 8"
definition ICMP_ECHOREPLY :: byte where "ICMP_ECHOREPLY = 0"
definition IPPROTO_ICMP :: byte where "IPPROTO_ICMP = 1"

text \<open>
  \<^verbatim>\<open>struct icmp\<close> places \<^verbatim>\<open>icmp_type\<close> at offset 0, \<^verbatim>\<open>icmp_code\<close> at 1, \<^verbatim>\<open>icmp_cksum\<close> at
  2, \<^verbatim>\<open>icmp_id\<close> at 4 and \<^verbatim>\<open>icmp_seq\<close> at 6. \<open>pid\<close> is the value of \<^verbatim>\<open>getpid()\<close>.
\<close>

definition own_id :: "int \<Rightarrow> 16 word" where
  "own_id pid = word_of_int (pid AND 0xFFFF)"

definition build_echo_request :: "bool \<Rightarrow> int \<Rightarrow> 16 word \<Rightarrow> byte list" where
  "build_echo_request le pid icmp_seq_value =
     (let packet = replicate PACKET_SIZE 0;
          packet = packet[0 := ICMP_ECHO];
          packet = packet[1 := 0];
          packet = store16 le packet 4 (htons le (own_id pid));
          packet = store16 le packet 6 (htons le icmp_seq_value);
          packet = store16 le packet 2 0
      in store16 le packet 2 (checksum le packet))"

section \<open>Received datagrams (lines 229--311)\<close>

text \<open>
  What \<^verbatim>\<open>recvfrom\<close> delivers: its return value, the contents of the 1024-byte
  \<^verbatim>\<open>recv_buf\<close> and the sender's address (\<^verbatim>\<open>recv_addr.sin_addr.s_addr\<close>).
\<close>

record datagram =
  recv_len :: int
  recv_buf :: "byte list"
  recv_addr :: "32 word"

text \<open>
  A read of \<^verbatim>\<open>recv_buf[i]\<close>. The C code reads memory unchecked; the model makes the
  read fail (\<open>None\<close>) when the offset is not among the bytes that were received, so that
  a read outside the datagram is a visible outcome.
\<close>

definition peek :: "datagram \<Rightarrow> int \<Rightarrow> byte option" where
  "peek d i =
     (if 0 \<le> i \<and> i < recv_len d \<and> nat i < length (recv_buf d)
      then Some (recv_buf d ! nat i) else None)"

definition peek16 :: "bool \<Rightarrow> datagram \<Rightarrow> int \<Rightarrow> 16 word option" where
  "peek16 le d i = do { b0 \<leftarrow> peek d i; b1 \<leftarrow> peek d (i + 1); Some (word16 le b0 b1) }"

text \<open>The values main compares a reply against (lines 172--183).\<close>

record probe =
  host_le :: bool
  deadline :: timeval
  expected_id :: "16 word"
  expected_seq :: "16 word"
  expected_addr :: "32 word"

text \<open>
  The source skips a datagram with a bare \<^verbatim>\<open>continue\<close>; the constructors name the
  check that skipped it.
\<close>

datatype reject = ShortPacket | BadIpHeaderLength | WrongIpVersion | NotIcmp

datatype mismatch = NotEchoReply | BadCode | IdMismatch | SeqMismatch | SourceMismatch

datatype verdict = Rejected reject | Discarded mismatch | Matched int

text \<open>
  Lines 243--275: the checks on the IP header. In \<^verbatim>\<open>struct ip\<close> the bit-fields
  \<^verbatim>\<open>ip_hl\<close> and \<^verbatim>\<open>ip_v\<close> are the low and the high nibble of byte 0, \<^verbatim>\<open>ip_ttl\<close> is byte 8
  and \<^verbatim>\<open>ip_p\<close> byte 9. The result is \<^verbatim>\<open>ip_header_len\<close>, the offset of the ICMP header.
\<close>

definition parse_reply :: "datagram \<Rightarrow> (reject + int) option" where
  "parse_reply d =
     (if recv_len d < 20 then Some (Inl ShortPacket)
      else do {
        vhl \<leftarrow> peek d 0;
        let ip_header_len = uint (vhl AND 0x0F) * 4;
        if ip_header_len < 20 \<or> ip_header_len > 60 then Some (Inl BadIpHeaderLength)
        else if drop_bit 4 vhl \<noteq> 4 then Some (Inl WrongIpVersion)
        else do {
          ip_p \<leftarrow> peek d 9;
          if ip_p \<noteq> IPPROTO_ICMP then Some (Inl NotIcmp)
          else if recv_len d < ip_header_len + ICMP_HEADER_SIZE then Some (Inl ShortPacket)
          else Some (Inr ip_header_len)
        }
      })"

text \<open>
  Lines 277--311: the comparisons on the ICMP header at offset \<^verbatim>\<open>ip_header_len\<close>, in
  the order of the source, each field read when its comparison is reached. \<open>Inr ttl\<close>
  is the path to line 310 with \<^verbatim>\<open>reply_ttl\<close>.
\<close>

definition check_reply :: "probe \<Rightarrow> datagram \<Rightarrow> int \<Rightarrow> (mismatch + int) option" where
  "check_reply p d ip_header_len =
     do {
       icmp_type \<leftarrow> peek d ip_header_len;
       if icmp_type \<noteq> ICMP_ECHOREPLY then Some (Inl NotEchoReply)
       else do {
         icmp_code \<leftarrow> peek d (ip_header_len + 1);
         if icmp_code \<noteq> 0 then Some (Inl BadCode)
         else do {
           icmp_id \<leftarrow> peek16 (host_le p) d (ip_header_len + 4);
           if ntohs (host_le p) icmp_id \<noteq> expected_id p then Some (Inl IdMismatch)
           else do {
             icmp_seq \<leftarrow> peek16 (host_le p) d (ip_header_len + 6);
             if ntohs (host_le p) icmp_seq \<noteq> expected_seq p then Some (Inl SeqMismatch)
             else if recv_addr d \<noteq> expected_addr p then Some (Inl SourceMismatch)
             else do {
               ip_ttl \<leftarrow> peek d 8;
               Some (Inr (uint ip_ttl))
             }
           }
         }
       }
     }"

definition examine :: "probe \<Rightarrow> datagram \<Rightarrow> verdict option" where
  "examine p d =
     do {
       r \<leftarrow> parse_reply d;
       case r of
         Inl rej \<Rightarrow> Some (Rejected rej)
       | Inr ip_header_len \<Rightarrow>
           do {
             m \<leftarrow> check_reply p d ip_header_len;
             Some (case m of Inl mm \<Rightarrow> Discarded mm | Inr ttl \<Rightarrow> Matched ttl)
           }
     }"

section \<open>The program (lines 51--324)\<close>

text \<open>
  The calls the program makes that matter for the socket's lifetime and for the waits,
  in the order in which they happen. \<open>EvSelect r\<close> is a call of \<^verbatim>\<open>select\<close> with the
  timeout \<open>r\<close>; \<open>EvSendto b\<close> sends the bytes \<open>b\<close>.
\<close>

datatype event =
    EvSocket | EvConnect | EvSendto "byte list" | EvSelect timeval | EvRecvfrom
  | EvPrintf | EvClose | EvFreeaddrinfo

text \<open>The \<^verbatim>\<open>return\<close> statements of \<^verbatim>\<open>main\<close>.\<close>

datatype exit_path =
    ExUsage
  | ExBadTimeout
  | ExBadSeq
  | ExResolve
  | ExSocket
  | ExConnect
  | ExSendto
  | ExSelect
  | ExTimeoutExpired
  | ExTimeoutSelect
  | ExRecvfrom
  | ExSuccess int int

text \<open>
  The value each of them returns: line 54; lines 64, 68, 72 and 76; lines 89 and 93; line
  108; line 117; line 127; line 168; line 219; line 206; line 226; line 240; line 324.
\<close>

fun exit_code :: "exit_path \<Rightarrow> int" where
  "exit_code ExUsage = 1"
| "exit_code ExBadTimeout = 2"
| "exit_code ExBadSeq = 2"
| "exit_code ExResolve = 3"
| "exit_code ExSocket = 4"
| "exit_code ExConnect = 4"
| "exit_code ExSendto = 5"
| "exit_code ExSelect = 6"
| "exit_code ExTimeoutExpired = 7"
| "exit_code ExTimeoutSelect = 7"
| "exit_code ExRecvfrom = 8"
| "exit_code (ExSuccess rtt ttl) = 0"

text \<open>
  How far a run has come: it returned from \<^verbatim>\<open>main\<close>; it left the receive loop through
  the \<^verbatim>\<open>break\<close> of line 312 (with \<^verbatim>\<open>end_time\<close> and \<^verbatim>\<open>reply_ttl\<close>); it is still in the
  loop when the recorded inputs end; or it read outside the received bytes.
\<close>

datatype status = Exit exit_path | Break timeval int | Waiting | Fault

text \<open>
  The inputs of one round of the loop: the clock reading of line 190, the result of
  \<^verbatim>\<open>select\<close>, what \<^verbatim>\<open>recvfrom\<close> delivered, and the clock reading of line 310.
\<close>

record iteration =
  now :: timeval
  select_result :: int
  dgram :: datagram
  end_time :: timeval

text \<open>
  Lines 187--313. A skipped datagram (\<^verbatim>\<open>continue\<close>) goes on with the next round; the
  deadline in \<open>p\<close> is the one computed before the loop.
\<close>

fun wait_loop :: "probe \<Rightarrow> iteration list \<Rightarrow> status \<times> event list" where
  "wait_loop p [] = (Waiting, [])"
| "wait_loop p (it # rest) =
     (case remaining_time (deadline p) (now it) of
        None \<Rightarrow> (Exit ExTimeoutExpired, [EvClose, EvFreeaddrinfo])
      | Some remaining \<Rightarrow>
          if select_result it < 0
          then (Exit ExSelect, [EvSelect remaining, EvClose, EvFreeaddrinfo])
          else if select_result it = 0
          then (Exit ExTimeoutSelect, [EvSelect remaining, EvClose, EvFreeaddrinfo])
          else if recv_len (dgram it) < 0
          then (Exit ExRecvfrom, [EvSelect remaining, EvRecvfrom, EvClose, EvFreeaddrinfo])
          else (case examine p (dgram it) of
                  None \<Rightarrow> (Fault, [EvSelect remaining, EvRecvfrom])
                | Some (Matched ttl) \<Rightarrow>
                    (Break (end_time it) ttl, [EvSelect remaining, EvRecvfrom])
                | Some (Rejected rej) \<Rightarrow>
                    (fst (wait_loop p rest),
                     [EvSelect remaining, EvRecvfrom] @ snd (wait_loop p rest))
                | Some (Discarded mm) \<Rightarrow>
                    (fst (wait_loop p rest),
                     [EvSelect remaining, EvRecvfrom] @ snd (wait_loop p rest))))"

text \<open>
  What \<^verbatim>\<open>strtol\<close> reports for an argument: no digits were converted
  (\<^verbatim>\<open>endptr == arg\<close>), characters follow the number (\<^verbatim>\<open>*endptr != 0\<close>), \<^verbatim>\<open>errno\<close> is
  \<^verbatim>\<open>ERANGE\<close>, and the value.
\<close>

record strtol_result =
  no_digits :: bool
  trailing :: bool
  erange :: bool
  long_value :: int

text \<open>
  Everything the program receives from outside: its arguments as \<^verbatim>\<open>strtol\<close> sees them,
  the results of the system calls (\<^verbatim>\<open>dest_addr\<close> is \<^verbatim>\<open>dest_addr->sin_addr.s_addr\<close>), the
  process id, the clock, the host's byte order and the inputs of the loop's rounds.
\<close>

record env =
  argc :: int
  timeout_arg :: strtol_result
  seq_arg :: strtol_result
  getaddrinfo_status :: int
  dest_addr :: "32 word"
  socket_result :: int
  connect_result :: int
  getpid :: int
  start_time :: timeval
  sendto_result :: int
  little_endian :: bool
  iterations :: "iteration list"

text \<open>Lines 80--96: the optional sequence number; \<open>None\<close> is \<^verbatim>\<open>return 2\<close>.\<close>

definition parse_icmp_seq :: "env \<Rightarrow> 16 word option" where
  "parse_icmp_seq e =
     (if argc e = 4
      then if no_digits (seq_arg e) \<or> trailing (seq_arg e) then None
           else if erange (seq_arg e) \<or> long_value (seq_arg e) < 0
                   \<or> long_value (seq_arg e) > 65535 then None
           else Some (word_of_int (long_value (seq_arg e)))
      else Some 1)"

text \<open>Lines 172--183: the deadline and the expected values.\<close>

definition make_probe :: "env \<Rightarrow> int \<Rightarrow> 16 word \<Rightarrow> probe" where
  "make_probe e timeout_ms icmp_seq_value =
     \<lparr>host_le = little_endian e,
      deadline = compute_deadline (start_time e) timeout_ms,
      expected_id = own_id (getpid e),
      expected_seq = icmp_seq_value,
      expected_addr = dest_addr e\<rparr>"

text \<open>
  Lines 316--317 compute the round-trip time in floating point, in milliseconds; the
  model keeps the exact difference in microseconds.
\<close>

definition rtt_usec :: "timeval \<Rightarrow> timeval \<Rightarrow> int" where
  "rtt_usec start_t end_t =
     (tv_sec end_t - tv_sec start_t) * 1000000 + (tv_usec end_t - tv_usec start_t)"

text \<open>
  \<^verbatim>\<open>main\<close>. The two \<^verbatim>\<open>setsockopt\<close> calls (lines 130--143) only print a warning when
  they fail and are left out.
\<close>

definition main :: "env \<Rightarrow> status \<times> event list" where
  "main e =
     (if argc e < 3 \<or> argc e > 4 then (Exit ExUsage, [])
      else if no_digits (timeout_arg e) \<or> trailing (timeout_arg e) then (Exit ExBadTimeout, [])
      else if erange (timeout_arg e) then (Exit ExBadTimeout, [])
      else if long_value (timeout_arg e) \<le> 0 then (Exit ExBadTimeout, [])
      else if long_value (timeout_arg e) > 60000 then (Exit ExBadTimeout, [])
      else
        let timeout_ms = long_value (timeout_arg e) in
        case parse_icmp_seq e of
          None \<Rightarrow> (Exit ExBadSeq, [])
        | Some icmp_seq_value \<Rightarrow>
            if getaddrinfo_status e \<noteq> 0 then (Exit ExResolve, [])
            else if socket_result e < 0 then (Exit ExSocket, [EvSocket, EvFreeaddrinfo])
            else if connect_result e < 0
            then (Exit ExConnect, [EvSocket, EvConnect, EvClose, EvFreeaddrinfo])
            else
              let packet = build_echo_request (little_endian e) (getpid e) icmp_seq_value;
                  sent = [EvSocket, EvConnect, EvSendto packet]
              in if sendto_result e < 0
                 then (Exit ExSendto, sent @ [EvClose, EvFreeaddrinfo])
                 else
                   case wait_loop (make_probe e timeout_ms icmp_seq_value) (iterations e) of
                     (Break end_t ttl, evs) \<Rightarrow>
                       (Exit (ExSuccess (rtt_usec (start_time e) end_t) ttl),
                        sent @ evs @ [EvPrintf, EvClose, EvFreeaddrinfo])
                   | (st, evs) \<Rightarrow> (st, sent @ evs))"

section \<open>The specification's wording, for comparison\<close>

text \<open>
  The parsed reply of the specification's \<^verbatim>\<open>parse_reply\<close> (section 4.2): the ICMP type
  and code, identifier and sequence in host order, the source address and the TTL.
\<close>

record parsed_reply =
  pr_type :: byte
  pr_code :: byte
  pr_id :: "16 word"
  pr_seq :: "16 word"
  pr_src :: "32 word"
  pr_ttl :: int

text \<open>
  The specification's \<^verbatim>\<open>parse_reply(buffer, declared_length)\<close>, written from its
  sentences in their order: header length is the first byte's low nibble times 4;
  reject a declared length below 20, a header length outside \<open>[20, 60]\<close>, a version other
  than 4, a protocol other than 1, a declared length below header length plus 8.
\<close>

definition header_length :: "datagram \<Rightarrow> int" where
  "header_length d = uint (recv_buf d ! 0 AND 0x0F) * 4"

definition reply_fields :: "datagram \<Rightarrow> parsed_reply" where
  "reply_fields d =
     (let buffer = recv_buf d; h = nat (header_length d)
      in \<lparr>pr_type = buffer ! h,
          pr_code = buffer ! (h + 1),
          pr_id = be16 (buffer ! (h + 4)) (buffer ! (h + 5)),
          pr_seq = be16 (buffer ! (h + 6)) (buffer ! (h + 7)),
          pr_src = recv_addr d,
          pr_ttl = uint (buffer ! 8)\<rparr>)"

definition parse_reply_spec :: "datagram \<Rightarrow> reject + parsed_reply" where
  "parse_reply_spec d =
     (let buffer = recv_buf d; declared_length = recv_len d
      in if declared_length < 20 then Inl ShortPacket
         else if header_length d < 20 \<or> 60 < header_length d then Inl BadIpHeaderLength
         else if drop_bit 4 (buffer ! 0) \<noteq> 4 then Inl WrongIpVersion
         else if buffer ! 9 \<noteq> 1 then Inl NotIcmp
         else if declared_length < header_length d + 8 then Inl ShortPacket
         else Inr (reply_fields d))"

text \<open>
  The specification's match (section 4.4): type is Echo Reply, code is 0, the identifier
  is the own identifier, the sequence is the requested one, the source is the target.
\<close>

definition is_match :: "probe \<Rightarrow> parsed_reply \<Rightarrow> bool" where
  "is_match p r \<longleftrightarrow>
     pr_type r = ICMP_ECHOREPLY \<and> pr_code r = 0 \<and> pr_id r = expected_id p
     \<and> pr_seq r = expected_seq p \<and> pr_src r = expected_addr p"

text \<open>
  The comparisons of lines 279--311 on the fields of a parsed reply: the first one that
  fails, or the TTL.
\<close>

definition first_mismatch :: "probe \<Rightarrow> parsed_reply \<Rightarrow> mismatch + int" where
  "first_mismatch p r =
     (if pr_type r \<noteq> ICMP_ECHOREPLY then Inl NotEchoReply
      else if pr_code r \<noteq> 0 then Inl BadCode
      else if pr_id r \<noteq> expected_id p then Inl IdMismatch
      else if pr_seq r \<noteq> expected_seq p then Inl SeqMismatch
      else if pr_src r \<noteq> expected_addr p then Inl SourceMismatch
      else Inr (pr_ttl r))"



text \<open>The timeouts of the \<^verbatim>\<open>select\<close> calls of a run, in order.\<close>

fun select_timeouts :: "event list \<Rightarrow> timeval list" where
  "select_timeouts [] = []"
| "select_timeouts (EvSelect r # evs) = r # select_timeouts evs"
| "select_timeouts (ev # evs) = select_timeouts evs"

section \<open>Example inputs\<close>

text \<open>
  A 28-byte echo reply from 127.0.0.1 (a 20-byte IP header with TTL 64 and protocol 1,
  then type 0, code 0, identifier \<open>0x1234\<close>, sequence 1), and a run that is started at
  second 100 with a timeout of 500 ms by the process \<open>0x51234\<close>, first receives a
  10-byte datagram and then the reply.
\<close>

definition example_reply :: "byte list" where
  "example_reply =
     [0x45, 0, 0, 28, 0, 0, 0, 0, 64, 1, 0, 0, 127, 0, 0, 1, 127, 0, 0, 1,
      0, 0, 0xED, 0xCA, 0x12, 0x34, 0, 1]"

definition example_probe :: probe where
  "example_probe =
     \<lparr>host_le = True, deadline = \<lparr>tv_sec = 100, tv_usec = 500000\<rparr>, expected_id = 0x1234,
      expected_seq = 1, expected_addr = 0x0100007F\<rparr>"

definition example_short :: iteration where
  "example_short =
     \<lparr>now = \<lparr>tv_sec = 100, tv_usec = 100\<rparr>, select_result = 1,
      dgram = \<lparr>recv_len = 10, recv_buf = take 10 example_reply, recv_addr = 0x0100007F\<rparr>,
      end_time = \<lparr>tv_sec = 100, tv_usec = 200\<rparr>\<rparr>"

definition example_iteration :: iteration where
  "example_iteration =
     \<lparr>now = \<lparr>tv_sec = 100, tv_usec = 900\<rparr>, select_result = 1,
      dgram = \<lparr>recv_len = 28, recv_buf = example_reply, recv_addr = 0x0100007F\<rparr>,
      end_time = \<lparr>tv_sec = 100, tv_usec = 1500\<rparr>\<rparr>"

definition example_env :: env where
  "example_env =
     \<lparr>argc = 3,
      timeout_arg = \<lparr>no_digits = False, trailing = False, erange = False, long_value = 500\<rparr>,
      seq_arg = \<lparr>no_digits = True, trailing = False, erange = False, long_value = 0\<rparr>,
      getaddrinfo_status = 0, dest_addr = 0x0100007F, socket_result = 3, connect_result = 0,
      getpid = 0x51234, start_time = \<lparr>tv_sec = 100, tv_usec = 0\<rparr>, sendto_result = 64,
      little_endian = True, iterations = [example_short, example_iteration]\<rparr>"

section \<open>Properties of the deadline tracker\<close>

lemma compute_deadline_usec:
  assumes "wf_timeval s" and "0 \<le> t"
  shows "to_usec (compute_deadline s t) = to_usec s + t * 1000"
    and "wf_timeval (compute_deadline s t)"
proof -
  have m: "0 \<le> t mod 1000" "t mod 1000 < 1000" by simp_all
  define q r where "q = t div 1000" and "r = t mod 1000"
  have d: "t = q * 1000 + r" by (simp add: q_def r_def)
  show "to_usec (compute_deadline s t) = to_usec s + t * 1000"
    unfolding compute_deadline_def to_usec_def Let_def q_def [symmetric] r_def [symmetric]
    by (simp add: d)
  have r: "0 \<le> r" "r \<le> 999" using m by (simp_all add: r_def)
  show "wf_timeval (compute_deadline s t)"
    unfolding compute_deadline_def wf_timeval_def Let_def r_def [symmetric]
    using assms(1) r by (simp add: wf_timeval_def)
qed

lemma remaining_time_Some:
  assumes "wf_timeval dl" and "wf_timeval t" and "remaining_time dl t = Some r"
  shows "to_usec r = to_usec dl - to_usec t" and "0 < to_usec r"
  using assms
  by (auto simp: remaining_time_def wf_timeval_def to_usec_def Let_def split: if_splits)

lemma remaining_time_None:
  assumes "wf_timeval dl" and "wf_timeval t" and "remaining_time dl t = None"
  shows "to_usec dl \<le> to_usec t"
  using assms
  by (auto simp: remaining_time_def wf_timeval_def to_usec_def Let_def split: if_splits)

text \<open>
  Claim C4. For clock readings with microseconds in range, the remaining-time computation
  reports expiry exactly when the reading \<open>t\<close> is at or past the deadline \<open>dl\<close>;
  otherwise it yields exactly \<open>dl - t\<close>, with the microsecond borrow carried into the seconds, and
  both fields of the value given to the wait are non-negative (the microseconds also
  below one million).
\<close>

theorem remaining_time_correct:
  assumes "wf_timeval dl" and "wf_timeval t"
  shows "(remaining_time dl t = None \<longleftrightarrow> to_usec dl \<le> to_usec t)
       \<and> (\<forall>r. remaining_time dl t = Some r \<longrightarrow>
             to_usec r = to_usec dl - to_usec t
           \<and> 0 \<le> tv_sec r \<and> 0 \<le> tv_usec r \<and> tv_usec r < 1000000
           \<and> (tv_usec dl < tv_usec t \<longrightarrow>
                tv_sec r = tv_sec dl - tv_sec t - 1
              \<and> tv_usec r = tv_usec dl + 1000000 - tv_usec t)
           \<and> (tv_usec t \<le> tv_usec dl \<longrightarrow>
                tv_sec r = tv_sec dl - tv_sec t
              \<and> tv_usec r = tv_usec dl - tv_usec t))"
  using assms
  by (auto simp: remaining_time_def wf_timeval_def to_usec_def Let_def split: if_splits)

theorem remaining_time_correct_witness:
  "remaining_time \<lparr>tv_sec = 12, tv_usec = 100\<rparr> \<lparr>tv_sec = 10, tv_usec = 900000\<rparr>
     = Some \<lparr>tv_sec = 1, tv_usec = 100100\<rparr>
   \<and> to_usec \<lparr>tv_sec = 1, tv_usec = 100100\<rparr>
     = to_usec \<lparr>tv_sec = 12, tv_usec = 100\<rparr> - to_usec \<lparr>tv_sec = 10, tv_usec = 900000\<rparr>
   \<and> remaining_time \<lparr>tv_sec = 10, tv_usec = 900000\<rparr> \<lparr>tv_sec = 10, tv_usec = 900000\<rparr> = None"
proof -
  have d: "wf_timeval \<lparr>tv_sec = 12, tv_usec = 100\<rparr>" by (simp add: wf_timeval_def)
  have n: "wf_timeval \<lparr>tv_sec = 10, tv_usec = 900000\<rparr>" by (simp add: wf_timeval_def)
  have s: "remaining_time \<lparr>tv_sec = 12, tv_usec = 100\<rparr> \<lparr>tv_sec = 10, tv_usec = 900000\<rparr>
             = Some \<lparr>tv_sec = 1, tv_usec = 100100\<rparr>"
    by (simp add: remaining_time_def)
  from remaining_time_correct [OF d n] remaining_time_correct [OF n n] s
  show ?thesis by (simp add: to_usec_def)
qed

section \<open>Properties of the checksum\<close>

lemma ucast_not_down: "(ucast (NOT (s :: 32 word)) :: 16 word) = NOT (ucast s)"
  by (rule bit_word_eqI) (auto simp: bit_simps)

lemma unat_NOT16: "unat (NOT (w :: 16 word)) = 65535 - unat w"
proof -
  have a: "unat w < 65536" "unat (NOT w) < 65536"
    using unsigned_less [of w, where 'a=nat] unsigned_less [of "NOT w", where 'a=nat] by simp_all
  have "(unat w + unat (NOT w)) mod 2 ^ LENGTH(16) = unat (w + NOT w)"
    by (rule unat_word_ariths(1) [symmetric])
  also have "\<dots> = unat (- 1 :: 16 word)" by (simp only: word_add_not)
  also have "\<dots> = 65535" by (simp add: unsigned_minus_1_eq_mask mask_eq_exp_minus_1)
  finally have "(unat w + unat (NOT w)) mod 65536 = 65535" by simp
  then show ?thesis using a by (simp add: mod_if split: if_splits)
qed

lemma unat_hi: "unat (drop_bit 16 (s :: 32 word)) = unat s div 65536"
  by (simp add: unat_drop_bit_eq drop_bit_eq_div unat_div)

lemma m16: "(0xFFFF :: 32 word) = mask 16" by (simp add: mask_eq_exp_minus_1)

lemma unat_lo: "unat ((s :: 32 word) AND 0xFFFF) = unat s mod 65536"
  unfolding m16 by (simp add: unsigned_and_eq take_bit_eq_mod unat_mod flip: take_bit_eq_mask)

lemma unat_not16: "unat (ucast (NOT (s :: 32 word)) :: 16 word) = 65535 - unat s mod 65536"
  by (simp add: ucast_not_down unat_NOT16 unsigned_ucast_eq take_bit_eq_mod)

lemma unat_lt32: "unat (s :: 32 word) < 4294967296"
  using unsigned_less [of s, where 'a=nat] by simp

lemma unat_fold_carries: "unat (fold_carries s) = nfold (unat s)"
proof -
  note lt = unat_lt32 [of s]
  define s1 where "s1 = drop_bit 16 s + (s AND 0xFFFF)"
  have "unat s div 65536 + unat s mod 65536 < 4294967296" using lt by arith
  then have u1: "unat s1 = unat s div 65536 + unat s mod 65536"
    unfolding s1_def by (simp add: unat_word_ariths unat_hi unat_lo)
  have b1: "unat s1 < 131072" unfolding u1 using lt by arith
  define s2 where "s2 = s1 + drop_bit 16 s1"
  have "unat s1 + unat s1 div 65536 < 4294967296" using b1 by arith
  then have u2: "unat s2 = unat s1 + unat s1 div 65536"
    unfolding s2_def by (simp add: unat_word_ariths unat_hi)
  have "fold_carries s = ucast (NOT s2)"
    by (simp add: fold_carries_def Let_def s1_def s2_def)
  then show ?thesis
    by (simp add: unat_not16 u2 u1 nfold_def Let_def)
qed

lemma nfold_lt: "nfold s < 65536" by (simp add: nfold_def Let_def)

lemma divmod16: "b < 65536 \<Longrightarrow> (a * 65536 + b) div 65536 = (a::nat) \<and> (a * 65536 + b) mod 65536 = b"
  by simp

lemma nfold_HL:
  assumes "L < 65536"
  shows "nfold (H * 65536 + L) = 65535 - (H + L + (H + L) div 65536) mod 65536"
  using divmod16 [OF assms, of H] by (simp add: nfold_def Let_def)

lemma nfold_verify:
  assumes "s < 4294967296"
  shows "s + nfold s < 4294967296 \<and> nfold (s + nfold s) = 0"
proof -
  define H L where "H = s div 65536" and "L = s mod 65536"
  have s: "s = H * 65536 + L" by (simp add: H_def L_def)
  have L: "L < 65536" by (simp add: L_def)
  have H: "H < 65536" using assms by (simp add: H_def less_mult_imp_div_less)
  consider (a) "H + L < 65536" | (b) "65536 \<le> H + L" "H = 65535" | (c) "65536 \<le> H + L" "H < 65535"
    using H by linarith
  then show ?thesis
  proof cases
    case a
    then have n: "nfold (H * 65536 + L) = 65535 - (H + L)" unfolding nfold_HL [OF L] by simp
    have e: "s + nfold s = H * 65536 + (65535 - H)" unfolding s n using a by simp
    have "nfold (s + nfold s) = 0" unfolding e
      by (subst nfold_HL) (use H in simp_all)
    then show ?thesis using e H by simp
  next
    case b
    then have d: "(H + L) div 65536 = 1" using L H by simp
    have n: "nfold (H * 65536 + L) = 131070 - H - L" unfolding nfold_HL [OF L] d using b L
      by (simp add: mod_if)
    have e: "s + nfold s = 65535 * 65536 + 65535" unfolding s n using b L by simp
    have "nfold (s + nfold s) = 0" unfolding e
      by (subst nfold_HL) simp_all
    then show ?thesis using e by simp
  next
    case c
    then have d: "(H + L) div 65536 = 1" using L H by simp
    have n: "nfold (H * 65536 + L) = 131070 - H - L" unfolding nfold_HL [OF L] d using c L H
      by (simp add: mod_if)
    have e: "s + nfold s = (H + 1) * 65536 + (65534 - H)" unfolding s n using c L by simp
    have "nfold (s + nfold s) = 0" unfolding e
      by (subst nfold_HL) (use c in simp_all)
    then show ?thesis using e c by simp
  qed
qed

lemma fold_carries_verify: "fold_carries (s + ucast (fold_carries s)) = 0"
proof -
  have c: "unat (ucast (fold_carries s) :: 32 word) = nfold (unat s)"
  proof -
    have "nfold (unat s) < 2 ^ 32" using nfold_lt [of "unat s"] by simp
    then show ?thesis
      by (simp add: unsigned_ucast_eq unat_fold_carries take_bit_nat_eq_self)
  qed
  note v = nfold_verify [OF unat_lt32 [of s]]
  have "unat (s + ucast (fold_carries s)) = unat s + nfold (unat s)"
    using v by (simp add: unat_word_ariths c)
  then have "unat (fold_carries (s + ucast (fold_carries s))) = 0"
    using v by (simp add: unat_fold_carries)
  then show ?thesis by (simp add: unat_eq_0)
qed

lemma sum_words_add: "sum_words le bs (acc + c) = sum_words le bs acc + c"
proof (induction le bs acc rule: sum_words.induct)
  case (1 le b0 b1 rest acc)
  have e: "acc + c + ucast (word16 le b0 b1) = acc + ucast (word16 le b0 b1) + c"
    by (simp add: add.commute add.left_commute)
  have "sum_words le (b0 # b1 # rest) (acc + c)
        = sum_words le rest (acc + c + ucast (word16 le b0 b1))"
    by simp
  also have "\<dots> = sum_words le rest (acc + ucast (word16 le b0 b1) + c)"
    by (simp only: e)
  also have "\<dots> = sum_words le rest (acc + ucast (word16 le b0 b1)) + c" by (rule 1)
  finally show ?case by simp
qed (simp_all add: add.commute add.left_commute)

lemma word16_zero: "word16 le 0 0 = 0"
  by (simp add: word16_def be16_def)

lemma sum_words_update:
  assumes "even k" and "Suc k < length bs" and "bs ! k = 0" and "bs ! Suc k = 0"
  shows "sum_words le (bs[k := x, Suc k := y]) acc = sum_words le bs acc + ucast (word16 le x y)"
  using assms
proof (induction le bs acc arbitrary: k rule: sum_words.induct)
  case (1 le b0 b1 rest acc)
  show ?case
  proof (cases k)
    case 0
    with 1 show ?thesis
      by (simp add: word16_zero sum_words_add)
  next
    case (Suc j)
    with "1.prems" obtain i where k: "k = Suc (Suc i)" by (cases j) auto
    with "1.prems" have "even i" "Suc i < length rest" "rest ! i = 0" "rest ! Suc i = 0"
      by simp_all
    from "1.IH" [OF this] show ?thesis by (simp add: k)
  qed
qed simp_all

lemma be16_split: "be16 (ucast (drop_bit 8 w)) (ucast w) = (w :: 16 word)"
  unfolding be16_def
  by (rule bit_word_eqI) (auto simp: bit_simps)

lemma word16_bytes16: "bytes16 le w = (b0, b1) \<Longrightarrow> word16 le b0 b1 = w"
  by (auto simp: bytes16_def word16_def be16_split split: if_splits)

lemma checksum_store16:
  assumes "even k" and "Suc k < length bs" and "bs ! k = 0" and "bs ! Suc k = 0"
  shows "checksum le (store16 le bs k (checksum le bs)) = 0"
proof -
  obtain b0 b1 where b: "bytes16 le (checksum le bs) = (b0, b1)" by (cases "bytes16 le (checksum le bs)")
  have "sum_words le (store16 le bs k (checksum le bs)) 0
        = sum_words le bs 0 + ucast (fold_carries (sum_words le bs 0))"
    unfolding store16_def b
    using sum_words_update [OF assms, of le b0 b1 0] word16_bytes16 [OF b]
    by (simp add: checksum_def)
  then show ?thesis
    by (simp add: checksum_def fold_carries_verify)
qed

lemma sum_words_snoc:
  "even (length bs) \<Longrightarrow> sum_words le (bs @ [b]) acc = sum_words le bs acc + push_bit 8 (ucast b)"
  by (induction le bs acc rule: sum_words.induct) simp_all

lemma sum_words_snoc2:
  "even (length bs) \<Longrightarrow> sum_words le (bs @ [b0, b1]) acc = sum_words le bs acc + ucast (word16 le b0 b1)"
  by (induction le bs acc rule: sum_words.induct) simp_all

lemma ucast_be16_hi: "(ucast (be16 b 0) :: 32 word) = push_bit 8 (ucast b)"
  unfolding be16_def
  by (rule bit_word_eqI) (auto simp: bit_simps dest: bit_imp_le_length)

lemma unat_be16_hi: "unat (ucast (be16 b 0) :: 32 word) = unat b * 256"
proof -
  have lt: "unat b < 256" using unsigned_less [of b, where 'a=nat] by simp
  then have u: "unat (ucast b :: 32 word) = unat b"
    by (simp add: unsigned_ucast_eq take_bit_nat_eq_self)
  have "unat (push_bit 8 (ucast b :: 32 word)) = (unat b * 256) mod 2 ^ 32"
    by (simp add: push_bit_eq_mult unat_word_ariths u)
  also have "\<dots> = unat b * 256" using lt by simp
  finally show ?thesis by (simp add: ucast_be16_hi)
qed

lemma length_store16 [simp]: "length (store16 le b k w) = length b"
  by (simp add: store16_def split: prod.split)

lemma bytes16_zero: "bytes16 le 0 = (0, 0)"
  by (simp add: bytes16_def)

lemma store16_zero: "store16 le b k 0 = b[k := 0, Suc k := 0]"
  by (simp add: store16_def bytes16_zero)

lemma checksum_build_echo_request: "checksum le (build_echo_request le pid s) = 0"
proof -
  define pk where "pk = store16 le (store16 le (store16 le
      ((replicate PACKET_SIZE 0)[0 := ICMP_ECHO, 1 := 0]) 4 (htons le (own_id pid)))
      6 (htons le s)) 2 0"
  have b: "build_echo_request le pid s = store16 le pk 2 (checksum le pk)"
    by (simp add: build_echo_request_def pk_def Let_def)
  have l: "Suc 2 < length pk" by (simp add: pk_def PACKET_SIZE_def)
  have z: "pk ! 2 = 0" "pk ! Suc 2 = 0"
    using l unfolding pk_def store16_zero by simp_all
  show ?thesis unfolding b
    by (rule checksum_store16 [OF _ l z]) simp
qed

text \<open>
  Claim C6. Whatever the host's byte order: for every byte buffer with a zeroed checksum
  field at an even offset \<open>k\<close> inside the buffer, storing the computed checksum into the
  field gives a buffer whose checksum is 0; and the checksum of the 64-byte echo request
  built by the program, taken after the checksum has been written back, is 0.
\<close>

theorem checksum_verifies:
  "(\<forall>bs k. even k \<and> Suc k < length bs \<and> bs ! k = 0 \<and> bs ! Suc k = 0 \<longrightarrow>
      checksum le (store16 le bs k (checksum le bs)) = 0)
   \<and> length (build_echo_request le pid s) = 64
   \<and> checksum le (build_echo_request le pid s) = 0"
proof -
  have "length (build_echo_request le pid s) = 64"
    by (simp add: build_echo_request_def Let_def PACKET_SIZE_def)
  then show ?thesis
    using checksum_store16 [of _ _ le] checksum_build_echo_request [of le pid s] by blast
qed

theorem checksum_verifies_witness:
  "checksum True (store16 True [8, 0, 0, 0, 0x12, 0x34, 0, 1, 0x61] 2
      (checksum True [8, 0, 0, 0, 0x12, 0x34, 0, 1, 0x61])) = 0
   \<and> store16 True [8, 0, 0, 0, 0x12, 0x34, 0, 1, 0x61] 2
      (checksum True [8, 0, 0, 0, 0x12, 0x34, 0, 1, 0x61])
      = [8, 0, 0xE5, 0x69, 0x12, 0x34, 0, 1, 0x61]
   \<and> checksum False (build_echo_request False 0x1234 1) = 0"
proof -
  let ?b = "[8, 0, 0, 0, 0x12, 0x34, 0, 1, 0x61] :: byte list"
  have h: "even (2::nat) \<and> Suc 2 < length ?b \<and> ?b ! 2 = 0 \<and> ?b ! Suc 2 = 0" by simp
  from checksum_verifies [where le = True and pid = 0 and s = 0]
  have "\<forall>bs k. even k \<and> Suc k < length bs \<and> bs ! k = 0 \<and> bs ! Suc k = 0 \<longrightarrow>
      checksum True (store16 True bs k (checksum True bs)) = 0" by (rule conjunct1)
  with h have 1: "checksum True (store16 True ?b 2 (checksum True ?b)) = 0" by blast
  have 2: "store16 True ?b 2 (checksum True ?b) = [8, 0, 0xE5, 0x69, 0x12, 0x34, 0, 1, 0x61]"
    by code_simp
  have 3: "checksum False (build_echo_request False 0x1234 1) = 0"
    using checksum_verifies [where le = False and pid = "0x1234" and s = 1] by simp
  from 1 2 3 show ?thesis by (intro conjI)
qed

text \<open>
  A buffer of odd length: the final byte enters the sum as the 16-bit word whose high
  byte it is and whose low byte is 0, that is with the value \<open>byte * 256\<close>, added to
  the sum of the 16-bit words before it. On a big-endian host this is the sum of the
  buffer padded with a zero byte. On a little-endian host, where line 40 reads a full
  word with its first byte low, it is not: it is the sum of the buffer with a zero byte
  put before the final byte.
\<close>

lemma odd_length_sum:
  assumes "odd (length bs)"
  shows "sum_words le bs 0 = sum_words le (butlast bs) 0 + ucast (be16 (last bs) 0)
       \<and> unat (ucast (be16 (last bs) 0) :: 32 word) = unat (last bs) * 256
       \<and> checksum le bs
           = fold_carries (sum_words le (butlast bs) 0 + ucast (be16 (last bs) 0))
       \<and> checksum False bs = checksum False (bs @ [0])
       \<and> checksum True bs = checksum True (butlast bs @ [0, last bs])"
proof -
  from assms have ne: "bs \<noteq> []" by auto
  then have bs: "bs = butlast bs @ [last bs]" by simp
  from assms ne have ev: "even (length (butlast bs))" by simp
  have s: "sum_words le bs 0 = sum_words le (butlast bs) 0 + ucast (be16 (last bs) 0)" for le
    by (subst bs) (simp only: sum_words_snoc [OF ev] ucast_be16_hi)
  have e: "bs @ [0] = butlast bs @ [last bs, 0]" using ne by simp
  have f: "sum_words False (bs @ [0]) 0 = sum_words False bs 0"
    by (simp only: e sum_words_snoc2 [OF ev] s) (simp add: word16_def)
  have t: "sum_words True (butlast bs @ [0, last bs]) 0 = sum_words True bs 0"
    by (simp only: sum_words_snoc2 [OF ev] s) (simp add: word16_def)
  show ?thesis
    using s f t by (simp add: checksum_def unat_be16_hi)
qed

text \<open>
  Claim C7. The claim wants the final byte of an odd-length buffer accumulated in the
  byte order of the full words, as RFC 1071 pads it. On a little-endian host the code
  does not do that. For the three bytes 1, 2, 3: line 40 adds the word \<open>0x0201\<close>
  (first byte low), line 43 adds \<open>3 * 256\<close> (the byte high), and the result
  \<open>0xFAFE\<close> is the checksum of 1, 2, 0, 3. Padding with a zero byte gives \<open>0xFDFB\<close>,
  which puts the bytes \<open>FB FD\<close> into a packet, the same as a big-endian host computes
  for 1, 2, 3; the code's result puts \<open>FE FA\<close> there.
\<close>

theorem checksum_odd_length_little_endian:
  "sum_words True [1, 2, 3] 0 = 0x0201 + 3 * 256
   \<and> checksum True [1, 2, 3] = 0xFAFE
   \<and> checksum True [1, 2, 3, 0] = 0xFDFB
   \<and> checksum True [1, 2, 3] = checksum True [1, 2, 0, 3]
   \<and> bytes16 True (checksum True [1, 2, 3]) = (0xFE, 0xFA)
   \<and> bytes16 True (checksum True [1, 2, 3, 0]) = (0xFB, 0xFD)
   \<and> bytes16 False (checksum False [1, 2, 3]) = (0xFB, 0xFD)
   \<and> checksum False [1, 2, 3] = checksum False [1, 2, 3, 0]"
  by code_simp

section \<open>The code's checks against the specification's wording\<close>

lemma ntohs_word16: "ntohs le (word16 le b0 b1) = be16 b0 b1"
proof (cases le)
  case True
  have "push_bit 8 (be16 b1 b0) OR drop_bit 8 (be16 b1 b0) = be16 b0 b1"
    unfolding be16_def
    by (rule bit_word_eqI) (auto simp: bit_simps dest: bit_imp_le_length)
  with True show ?thesis by (simp add: ntohs_def word16_def)
next
  case False
  then show ?thesis by (simp add: ntohs_def word16_def)
qed

lemma peek_in_range:
  assumes "recv_len d \<le> int (length (recv_buf d))" and "0 \<le> i" and "i < recv_len d"
  shows "peek d i = Some (recv_buf d ! nat i)"
  using assms by (simp add: peek_def)

lemma peek16_word16:
  assumes "recv_len d \<le> int (length (recv_buf d))" and "0 \<le> i" and "i + 1 < recv_len d"
  shows "peek16 le d i = Some (word16 le (recv_buf d ! nat i) (recv_buf d ! (nat i + 1)))"
proof -
  have "nat (i + 1) = nat i + 1" using assms(2) by simp
  then show ?thesis
    using assms peek_in_range [OF assms(1), of i] peek_in_range [OF assms(1), of "i + 1"]
    by (simp add: peek16_def)
qed

lemma peek16_in_range:
  assumes "recv_len d \<le> int (length (recv_buf d))" and "0 \<le> i" and "i + 1 < recv_len d"
  shows "map_option (ntohs le) (peek16 le d i) = Some (be16 (recv_buf d ! nat i) (recv_buf d ! (nat i + 1)))"
proof -
  have "nat (i + 1) = nat i + 1" using assms(2) by simp
  then show ?thesis
    using assms peek_in_range [OF assms(1), of i] peek_in_range [OF assms(1), of "i + 1"]
    by (simp add: peek16_def ntohs_word16)
qed

lemma parse_reply_eq:
  assumes "recv_len d \<le> int (length (recv_buf d))"
  shows "parse_reply d = Some (case parse_reply_spec d of Inl r \<Rightarrow> Inl r | Inr pr \<Rightarrow> Inr (header_length d))"
proof (cases "recv_len d < 20")
  case True
  then show ?thesis by (simp add: parse_reply_def parse_reply_spec_def)
next
  case False
  then have p0: "peek d 0 = Some (recv_buf d ! 0)" and p9: "peek d 9 = Some (recv_buf d ! 9)"
    using peek_in_range [OF assms, of 0] peek_in_range [OF assms, of 9] by simp_all
  show ?thesis
    using False
    by (simp add: parse_reply_def parse_reply_spec_def p0 p9 Let_def header_length_def
        IPPROTO_ICMP_def ICMP_HEADER_SIZE_def)
qed

lemma parse_reply_spec_InrD:
  assumes "parse_reply_spec d = Inr pr"
  shows "20 \<le> recv_len d" and "20 \<le> header_length d" and "header_length d + 8 \<le> recv_len d"
    and "pr = reply_fields d"
  using assms
  by (auto simp: parse_reply_spec_def Let_def split: if_splits)

lemma reply_fields_sel:
  "pr_type (reply_fields d) = recv_buf d ! nat (header_length d)"
  "pr_code (reply_fields d) = recv_buf d ! (nat (header_length d) + 1)"
  "pr_id (reply_fields d)
     = be16 (recv_buf d ! (nat (header_length d) + 4)) (recv_buf d ! (nat (header_length d) + 5))"
  "pr_seq (reply_fields d)
     = be16 (recv_buf d ! (nat (header_length d) + 6)) (recv_buf d ! (nat (header_length d) + 7))"
  "pr_src (reply_fields d) = recv_addr d"
  "pr_ttl (reply_fields d) = uint (recv_buf d ! 8)"
  by (simp_all add: reply_fields_def Let_def)

lemma check_reply_eq:
  assumes len: "recv_len d \<le> int (length (recv_buf d))"
    and spec: "parse_reply_spec d = Inr pr"
  shows "check_reply p d (header_length d) = Some (first_mismatch p pr)"
proof -
  note D = parse_reply_spec_InrD [OF spec]
  let ?h = "header_length d"
  have n: "nat (?h + 1) = nat ?h + 1" "nat (?h + 4) = nat ?h + 4" "nat (?h + 6) = nat ?h + 6"
    using D(2) by simp_all
  have t: "peek d ?h = Some (pr_type pr)"
    using peek_in_range [OF len, of ?h] D by (simp add: reply_fields_sel)
  have c: "peek d (?h + 1) = Some (pr_code pr)"
    using peek_in_range [OF len, of "?h + 1"] D n by (simp add: reply_fields_sel)
  have i: "peek16 (host_le p) d (?h + 4)
           = Some (word16 (host_le p) (recv_buf d ! (nat ?h + 4)) (recv_buf d ! (nat ?h + 5)))"
    using peek16_word16 [OF len, of "?h + 4"] D(1-3) n by (simp add: add.commute)
  have s: "peek16 (host_le p) d (?h + 6)
           = Some (word16 (host_le p) (recv_buf d ! (nat ?h + 6)) (recv_buf d ! (nat ?h + 7)))"
    using peek16_word16 [OF len, of "?h + 6"] D(1-3) n by (simp add: add.commute)
  have l: "peek d 8 = Some (recv_buf d ! 8)"
    using peek_in_range [OF len, of 8] D(1) by simp
  show ?thesis
    unfolding check_reply_def first_mismatch_def
    by (simp add: t c i s l ntohs_word16) (simp add: D(4) reply_fields_sel)
qed

lemma examine_eq:
  assumes len: "recv_len d \<le> int (length (recv_buf d))"
  shows "examine p d = Some (case parse_reply_spec d of
            Inl r \<Rightarrow> Rejected r
          | Inr pr \<Rightarrow> (case first_mismatch p pr of Inl mm \<Rightarrow> Discarded mm | Inr ttl \<Rightarrow> Matched ttl))"
proof (cases "parse_reply_spec d")
  case (Inl r)
  then show ?thesis by (simp add: examine_def parse_reply_eq [OF len])
next
  case (Inr pr)
  then show ?thesis
    by (simp add: examine_def parse_reply_eq [OF len] check_reply_eq [OF len Inr])
qed

lemma first_mismatch_cases:
  "(is_match p r \<and> first_mismatch p r = Inr (pr_ttl r))
   \<or> (\<not> is_match p r \<and> (\<exists>mm. first_mismatch p r = Inl mm))"
  by (auto simp: is_match_def first_mismatch_def)

lemma uint_own_id: "uint (own_id pid) = pid mod 65536"
proof -
  have "pid AND 0xFFFF = pid AND mask 16" by (simp add: mask_eq_exp_minus_1)
  then show ?thesis
    by (simp add: own_id_def uint_word_of_int take_bit_eq_mod flip: take_bit_eq_mask)
qed

section \<open>The receive loop and main, case by case\<close>

lemma wait_loop_Cons_cases:
  obtains
    (expired) "remaining_time (deadline p) (now it) = None"
      and "wait_loop p (it # rest) = (Exit ExTimeoutExpired, [EvClose, EvFreeaddrinfo])"
  | (select_failed) rem where "remaining_time (deadline p) (now it) = Some rem"
      and "wait_loop p (it # rest) = (Exit ExSelect, [EvSelect rem, EvClose, EvFreeaddrinfo])"
  | (select_timeout) rem where "remaining_time (deadline p) (now it) = Some rem"
      and "select_result it = 0"
      and "wait_loop p (it # rest) = (Exit ExTimeoutSelect, [EvSelect rem, EvClose, EvFreeaddrinfo])"
  | (recv_failed) rem where "remaining_time (deadline p) (now it) = Some rem"
      and "wait_loop p (it # rest)
           = (Exit ExRecvfrom, [EvSelect rem, EvRecvfrom, EvClose, EvFreeaddrinfo])"
  | (fault) rem where "remaining_time (deadline p) (now it) = Some rem"
      and "wait_loop p (it # rest) = (Fault, [EvSelect rem, EvRecvfrom])"
  | (matched) rem ttl where "remaining_time (deadline p) (now it) = Some rem"
      and "wait_loop p (it # rest) = (Break (end_time it) ttl, [EvSelect rem, EvRecvfrom])"
  | (skipped) rem where "remaining_time (deadline p) (now it) = Some rem"
      and "wait_loop p (it # rest)
           = (fst (wait_loop p rest), [EvSelect rem, EvRecvfrom] @ snd (wait_loop p rest))"
proof (cases "remaining_time (deadline p) (now it)")
  case None
  then show ?thesis by (intro expired) simp_all
next
  case (Some rem)
  consider (a) "select_result it < 0" | (b) "select_result it = 0"
    | (c) "0 < select_result it" "recv_len (dgram it) < 0"
    | (d) "0 < select_result it" "\<not> recv_len (dgram it) < 0"
    by linarith
  then show ?thesis
  proof cases
    case a
    with Some show ?thesis by (intro select_failed [of rem]) simp_all
  next
    case b
    with Some show ?thesis by (intro select_timeout [of rem]) simp_all
  next
    case c
    with Some show ?thesis by (intro recv_failed [of rem]) simp_all
  next
    case d
    show ?thesis
    proof (cases "examine p (dgram it)")
      case None
      with Some d show ?thesis by (intro fault [of rem]) simp_all
    next
      case (Some v)
      note v = this
      show ?thesis
      proof (cases v)
        case (Rejected r)
        with \<open>remaining_time (deadline p) (now it) = Some rem\<close> d v
        show ?thesis by (intro skipped [of rem]) simp_all
      next
        case (Discarded m)
        with \<open>remaining_time (deadline p) (now it) = Some rem\<close> d v
        show ?thesis by (intro skipped [of rem]) simp_all
      next
        case (Matched ttl)
        with \<open>remaining_time (deadline p) (now it) = Some rem\<close> d v
        show ?thesis by (intro matched [of rem ttl]) simp_all
      qed
    qed
  qed
qed

lemma wait_loop_step:
  assumes len: "recv_len (dgram it) \<le> int (length (recv_buf (dgram it)))"
    and rem: "remaining_time (deadline p) (now it) = Some rem"
    and sel: "0 < select_result it"
    and rcv: "0 \<le> recv_len (dgram it)"
  shows "wait_loop p (it # rest) =
     (case parse_reply_spec (dgram it) of
        Inl r \<Rightarrow> (fst (wait_loop p rest), [EvSelect rem, EvRecvfrom] @ snd (wait_loop p rest))
      | Inr pr \<Rightarrow>
          if is_match p pr then (Break (end_time it) (pr_ttl pr), [EvSelect rem, EvRecvfrom])
          else (fst (wait_loop p rest), [EvSelect rem, EvRecvfrom] @ snd (wait_loop p rest)))"
proof (cases "parse_reply_spec (dgram it)")
  case (Inl r)
  then show ?thesis using rem sel rcv by (simp add: examine_eq [OF len])
next
  case (Inr pr)
  from first_mismatch_cases [of p pr] show ?thesis
  proof (elim disjE conjE exE)
    assume "is_match p pr" "first_mismatch p pr = Inr (pr_ttl pr)"
    then show ?thesis using Inr rem sel rcv by (simp add: examine_eq [OF len])
  next
    fix mm assume "\<not> is_match p pr" "first_mismatch p pr = Inl mm"
    then show ?thesis using Inr rem sel rcv by (simp add: examine_eq [OF len])
  qed
qed

lemma wait_loop_no_fault:
  assumes "\<forall>it \<in> set its. recv_len (dgram it) \<le> int (length (recv_buf (dgram it)))"
  shows "fst (wait_loop p its) \<noteq> Fault"
  using assms
proof (induction its)
  case Nil
  then show ?case by simp
next
  case (Cons it rest)
  then have len: "recv_len (dgram it) \<le> int (length (recv_buf (dgram it)))"
    and IH: "fst (wait_loop p rest) \<noteq> Fault" by simp_all
  show ?case
    using IH examine_eq [OF len, of p]
    by (auto split: option.splits verdict.splits sum.splits)
qed

lemma select_timeouts_append:
  "select_timeouts (a @ b) = select_timeouts a @ select_timeouts b"
proof (induction a)
  case (Cons ev a)
  then show ?case by (cases ev) simp_all
qed simp

lemma wait_loop_selects:
  assumes "wf_timeval (deadline p)" and "\<forall>it \<in> set its. wf_timeval (now it)"
  shows "list_all2 (\<lambda>r it. to_usec r = to_usec (deadline p) - to_usec (now it) \<and> 0 < to_usec r)
           (select_timeouts (snd (wait_loop p its)))
           (take (length (select_timeouts (snd (wait_loop p its)))) its)"
  using assms(2)
proof (induction its)
  case Nil
  then show ?case by simp
next
  case (Cons it rest)
  then have wf: "wf_timeval (now it)" and IH: "list_all2
      (\<lambda>r it. to_usec r = to_usec (deadline p) - to_usec (now it) \<and> 0 < to_usec r)
      (select_timeouts (snd (wait_loop p rest)))
      (take (length (select_timeouts (snd (wait_loop p rest)))) rest)"
    by simp_all
  note R = remaining_time_Some [OF assms(1) wf]
  show ?case
  proof (cases p it rest rule: wait_loop_Cons_cases)
    case expired
    then show ?thesis by simp
  next
    case (select_failed rem)
    then show ?thesis using R [of rem] by simp
  next
    case (select_timeout rem)
    then show ?thesis using R [of rem] by simp
  next
    case (recv_failed rem)
    then show ?thesis using R [of rem] by simp
  next
    case (fault rem)
    then show ?thesis using R [of rem] by simp
  next
    case (matched rem ttl)
    then show ?thesis using R [of rem] by simp
  next
    case (skipped rem)
    then show ?thesis using R [of rem] IH by simp
  qed
qed

lemma wait_loop_expired:
  assumes "wf_timeval (deadline p)" and "\<forall>it \<in> set its. wf_timeval (now it)"
    and "fst (wait_loop p its) = Exit ExTimeoutExpired"
  shows "\<exists>it \<in> set its. to_usec (deadline p) \<le> to_usec (now it)"
  using assms(2,3)
proof (induction its)
  case Nil
  then show ?case by simp
next
  case (Cons it rest)
  then have wf: "wf_timeval (now it)" by simp
  show ?case
  proof (cases p it rest rule: wait_loop_Cons_cases)
    case expired
    with remaining_time_None [OF assms(1) wf] show ?thesis by simp
  next
    case (skipped rem)
    with Cons show ?thesis by simp
  qed (use Cons.prems in simp_all)
qed

lemma wait_loop_times_out:
  assumes dl: "wf_timeval (deadline p)"
    and ok: "\<forall>it \<in> set its. wf_timeval (now it) \<and> 0 \<le> select_result it
               \<and> 0 \<le> recv_len (dgram it)
               \<and> recv_len (dgram it) \<le> int (length (recv_buf (dgram it)))
               \<and> (\<forall>ttl. examine p (dgram it) \<noteq> Some (Matched ttl))"
    and late: "\<exists>it \<in> set its. to_usec (deadline p) \<le> to_usec (now it)"
  shows "fst (wait_loop p its) = Exit ExTimeoutExpired \<or> fst (wait_loop p its) = Exit ExTimeoutSelect"
  using ok late
proof (induction its)
  case Nil
  then show ?case by simp
next
  case (Cons it rest)
  then have wf: "wf_timeval (now it)" and sel: "0 \<le> select_result it"
    and rcv: "0 \<le> recv_len (dgram it)"
    and len: "recv_len (dgram it) \<le> int (length (recv_buf (dgram it)))"
    and nm: "\<forall>ttl. examine p (dgram it) \<noteq> Some (Matched ttl)"
    by simp_all
  show ?case
  proof (cases "remaining_time (deadline p) (now it)")
    case None
    then show ?thesis by simp
  next
    case (Some rem)
    from remaining_time_Some [OF dl wf Some] have "to_usec (now it) < to_usec (deadline p)"
      by simp
    with Cons.prems(2) have late': "\<exists>it \<in> set rest. to_usec (deadline p) \<le> to_usec (now it)"
      by auto
    from Cons.prems(1) have ok': "\<forall>it \<in> set rest. wf_timeval (now it) \<and> 0 \<le> select_result it
               \<and> 0 \<le> recv_len (dgram it)
               \<and> recv_len (dgram it) \<le> int (length (recv_buf (dgram it)))
               \<and> (\<forall>ttl. examine p (dgram it) \<noteq> Some (Matched ttl))" by simp
    note IH = Cons.IH [OF ok' late']
    show ?thesis
    proof (cases "select_result it = 0")
      case True
      with Some show ?thesis by simp
    next
      case False
      with sel have s: "0 < select_result it" by simp
      obtain v where v: "examine p (dgram it) = Some v"
        using examine_eq [OF len, of p] by simp
      with nm have "\<forall>ttl. v \<noteq> Matched ttl" by simp
      with Some s rcv v IH show ?thesis by (cases v) simp_all
    qed
  qed
qed





lemma main_cases:
  obtains
    (early) x where "main e = (Exit x, [])" and "x \<in> {ExUsage, ExBadTimeout, ExBadSeq, ExResolve}"
  | (sock) "main e = (Exit ExSocket, [EvSocket, EvFreeaddrinfo])" and "socket_result e < 0"
  | (conn) "main e = (Exit ExConnect, [EvSocket, EvConnect, EvClose, EvFreeaddrinfo])"
      and "0 \<le> socket_result e"
  | (send) pk where
      "main e = (Exit ExSendto, [EvSocket, EvConnect, EvSendto pk, EvClose, EvFreeaddrinfo])"
      and "0 \<le> socket_result e"
  | (loop) s pk where "0 < long_value (timeout_arg e)" and "0 \<le> socket_result e"
      and "main e =
        (case wait_loop (make_probe e (long_value (timeout_arg e)) s) (iterations e) of
           (Break end_t ttl, evs) \<Rightarrow>
             (Exit (ExSuccess (rtt_usec (start_time e) end_t) ttl),
              [EvSocket, EvConnect, EvSendto pk] @ evs @ [EvPrintf, EvClose, EvFreeaddrinfo])
         | (st, evs) \<Rightarrow> (st, [EvSocket, EvConnect, EvSendto pk] @ evs))"
proof -
  consider (a) "argc e < 3 \<or> argc e > 4"
    | (b) "\<not> (argc e < 3 \<or> argc e > 4)"
          "no_digits (timeout_arg e) \<or> trailing (timeout_arg e) \<or> erange (timeout_arg e)
           \<or> long_value (timeout_arg e) \<le> 0 \<or> long_value (timeout_arg e) > 60000"
    | (c) "\<not> (argc e < 3 \<or> argc e > 4)"
          "\<not> (no_digits (timeout_arg e) \<or> trailing (timeout_arg e) \<or> erange (timeout_arg e)
           \<or> long_value (timeout_arg e) \<le> 0 \<or> long_value (timeout_arg e) > 60000)"
    by blast
  then show ?thesis
  proof cases
    case a
    then have "main e = (Exit ExUsage, [])" by (simp add: main_def)
    then show ?thesis by (rule early) simp
  next
    case b
    then have "main e = (Exit ExBadTimeout, [])" by (auto simp: main_def)
    then show ?thesis by (rule early) simp
  next
    case c
    show ?thesis
    proof (cases "parse_icmp_seq e")
      case None
      with c have "main e = (Exit ExBadSeq, [])" by (simp add: main_def)
      then show ?thesis by (rule early) simp
    next
      case (Some s)
      consider (r) "getaddrinfo_status e \<noteq> 0"
        | (so) "getaddrinfo_status e = 0" "socket_result e < 0"
        | (co) "getaddrinfo_status e = 0" "\<not> socket_result e < 0" "connect_result e < 0"
        | (se) "getaddrinfo_status e = 0" "\<not> socket_result e < 0" "\<not> connect_result e < 0"
               "sendto_result e < 0"
        | (lo) "getaddrinfo_status e = 0" "\<not> socket_result e < 0" "\<not> connect_result e < 0"
               "\<not> sendto_result e < 0"
        by blast
      then show ?thesis
      proof cases
        case r
        with c Some have "main e = (Exit ExResolve, [])" by (simp add: main_def)
        then show ?thesis by (rule early) simp
      next
        case so
        with c Some show ?thesis by (intro sock) (simp_all add: main_def)
      next
        case co
        with c Some show ?thesis by (intro conn) (simp_all add: main_def)
      next
        case se
        with c Some show ?thesis
          by (intro send [where pk = "build_echo_request (little_endian e) (getpid e) s"])
             (simp_all add: main_def Let_def)
      next
        case lo
        with c Some show ?thesis
          by (intro loop [where s = s and pk = "build_echo_request (little_endian e) (getpid e) s"])
             (simp_all add: main_def Let_def)
      qed
    qed
  qed
qed

lemma main_loop_result:
  assumes w: "wait_loop p its = (st, evs)"
  shows "(case wait_loop p its of
           (Break end_t ttl, evs) \<Rightarrow>
             (Exit (ExSuccess (rtt_usec t0 end_t) ttl), sent @ evs @ [EvPrintf, EvClose, EvFreeaddrinfo])
         | (st, evs) \<Rightarrow> (st, sent @ evs))
       = (case st of Break end_t ttl \<Rightarrow>
             (Exit (ExSuccess (rtt_usec t0 end_t) ttl), sent @ evs @ [EvPrintf, EvClose, EvFreeaddrinfo])
          | _ \<Rightarrow> (st, sent @ evs))"
  unfolding w by (cases st) simp_all

lemma main_no_fault:
  assumes "\<forall>it \<in> set (iterations e). recv_len (dgram it) \<le> int (length (recv_buf (dgram it)))"
  shows "fst (main e) \<noteq> Fault"
proof (cases e rule: main_cases)
  case (loop s pk)
  obtain st evs where w: "wait_loop (make_probe e (long_value (timeout_arg e)) s) (iterations e) = (st, evs)"
    by (cases "wait_loop (make_probe e (long_value (timeout_arg e)) s) (iterations e)")
  with wait_loop_no_fault [OF assms, of "make_probe e (long_value (timeout_arg e)) s"]
  have "st \<noteq> Fault" by simp
  then show ?thesis unfolding loop(3) w by (cases st) simp_all
qed simp_all





section \<open>The example run\<close>

lemma example_iteration_facts:
  "recv_len (dgram example_iteration) \<le> int (length (recv_buf (dgram example_iteration)))"
  "parse_reply (dgram example_iteration) = Some (Inr 20)"
  "remaining_time (deadline example_probe) (now example_iteration)
     = Some \<lparr>tv_sec = 0, tv_usec = 499100\<rparr>"
  "0 < select_result example_iteration"
  "reply_fields (dgram example_iteration)
     = \<lparr>pr_type = 0, pr_code = 0, pr_id = 0x1234, pr_seq = 1, pr_src = 0x0100007F, pr_ttl = 64\<rparr>"
  by (simp_all add: example_iteration_def example_reply_def example_probe_def parse_reply_def
      peek_def IPPROTO_ICMP_def ICMP_HEADER_SIZE_def remaining_time_def reply_fields_def
      header_length_def be16_def Let_def)

lemma example_short_facts:
  "recv_len (dgram example_short) \<le> int (length (recv_buf (dgram example_short)))"
  "parse_reply_spec (dgram example_short) = Inl ShortPacket"
  "remaining_time (deadline example_probe) (now example_short)
     = Some \<lparr>tv_sec = 0, tv_usec = 499900\<rparr>"
  "0 < select_result example_short"
  "0 \<le> recv_len (dgram example_short)"
  by (simp_all add: example_short_def example_reply_def example_probe_def parse_reply_spec_def
      remaining_time_def Let_def)

lemma example_iteration_spec:
  "parse_reply_spec (dgram example_iteration)
     = Inr \<lparr>pr_type = 0, pr_code = 0, pr_id = 0x1234, pr_seq = 1, pr_src = 0x0100007F, pr_ttl = 64\<rparr>"
  "header_length (dgram example_iteration) = 20"
  by (simp_all add: example_iteration_def example_reply_def parse_reply_spec_def reply_fields_def
      header_length_def be16_def Let_def)

lemma example_env_wf:
  "\<forall>it \<in> set (iterations example_env). recv_len (dgram it) \<le> int (length (recv_buf (dgram it)))"
  by (simp add: example_env_def example_short_def example_iteration_def example_reply_def)

lemma main_example:
  "main example_env =
     (Exit (ExSuccess 1500 64),
      [EvSocket, EvConnect, EvSendto (build_echo_request True 0x51234 1),
       EvSelect \<lparr>tv_sec = 0, tv_usec = 499900\<rparr>, EvRecvfrom,
       EvSelect \<lparr>tv_sec = 0, tv_usec = 499100\<rparr>, EvRecvfrom, EvPrintf, EvClose, EvFreeaddrinfo])"
  by code_simp


lemma main_example_timeout:
  "main (example_env\<lparr>iterations :=
       [example_short, example_iteration\<lparr>now := \<lparr>tv_sec = 100, tv_usec = 500000\<rparr>\<rparr>]\<rparr>) =
     (Exit ExTimeoutExpired,
      [EvSocket, EvConnect, EvSendto (build_echo_request True 0x51234 1),
       EvSelect \<lparr>tv_sec = 0, tv_usec = 499900\<rparr>, EvRecvfrom, EvClose, EvFreeaddrinfo])"
  by code_simp



section \<open>Properties of parsing and matching\<close>

text \<open>
  Claim C5. On a buffer that holds the received bytes, the checks of lines 243--275
  reject exactly as the specification's \<^verbatim>\<open>parse_reply\<close> does, with the same reason and
  in the same order: a length below 20, a header length (low nibble of byte 0 times 4)
  outside \<open>[20, 60]\<close>, a version other than 4, a protocol other than 1, a length below
  header length plus 8. A rejected datagram does not end the loop: it goes on with its
  next round. Otherwise the reads that follow yield the ICMP type, code, identifier and
  sequence (in network order) at the header length, the TTL at byte 8, and the source is
  the sender's address.
\<close>

theorem parse_reply_refines_spec:
  assumes len: "recv_len d \<le> int (length (recv_buf d))"
  shows "(\<forall>r. parse_reply_spec d = Inl r \<longrightarrow>
            parse_reply d = Some (Inl r)
          \<and> examine p d = Some (Rejected r)
          \<and> (\<forall>it rest rem. dgram it = d \<and> remaining_time (deadline p) (now it) = Some rem
                \<and> 0 < select_result it \<and> 0 \<le> recv_len d \<longrightarrow>
                wait_loop p (it # rest)
                = (fst (wait_loop p rest), [EvSelect rem, EvRecvfrom] @ snd (wait_loop p rest))))
       \<and> (\<forall>pr. parse_reply_spec d = Inr pr \<longrightarrow>
            parse_reply d = Some (Inr (header_length d))
          \<and> peek d (header_length d) = Some (pr_type pr)
          \<and> peek d (header_length d + 1) = Some (pr_code pr)
          \<and> map_option (ntohs le) (peek16 le d (header_length d + 4)) = Some (pr_id pr)
          \<and> map_option (ntohs le) (peek16 le d (header_length d + 6)) = Some (pr_seq pr)
          \<and> recv_addr d = pr_src pr
          \<and> map_option uint (peek d 8) = Some (pr_ttl pr))"
proof (intro conjI allI impI)
  fix r assume spec: "parse_reply_spec d = Inl r"
  show "parse_reply d = Some (Inl r)" by (simp add: parse_reply_eq [OF len] spec)
  show "examine p d = Some (Rejected r)" by (simp add: examine_eq [OF len] spec)
  fix it :: iteration and rest rem
  assume a: "dgram it = d \<and> remaining_time (deadline p) (now it) = Some rem
                \<and> 0 < select_result it \<and> 0 \<le> recv_len d"
  then have l: "recv_len (dgram it) \<le> int (length (recv_buf (dgram it)))" using len by simp
  from a show "wait_loop p (it # rest)
                = (fst (wait_loop p rest), [EvSelect rem, EvRecvfrom] @ snd (wait_loop p rest))"
    using wait_loop_step [OF l, of p rem rest] spec by simp
next
  fix pr assume spec: "parse_reply_spec d = Inr pr"
  note D = parse_reply_spec_InrD [OF spec]
  let ?h = "header_length d"
  have n: "nat (?h + 1) = nat ?h + 1" "nat (?h + 4) = nat ?h + 4" "nat (?h + 6) = nat ?h + 6"
    using D(2) by simp_all
  show "parse_reply d = Some (Inr ?h)" by (simp add: parse_reply_eq [OF len] spec)
  show "peek d ?h = Some (pr_type pr)"
    using peek_in_range [OF len, of ?h] D by (simp add: reply_fields_sel)
  show "peek d (?h + 1) = Some (pr_code pr)"
    using peek_in_range [OF len, of "?h + 1"] D n by (simp add: reply_fields_sel)
  show "map_option (ntohs le) (peek16 le d (?h + 4)) = Some (pr_id pr)"
    using peek16_in_range [OF len, of "?h + 4" le] D n by (simp add: reply_fields_sel add.commute)
  show "map_option (ntohs le) (peek16 le d (?h + 6)) = Some (pr_seq pr)"
    using peek16_in_range [OF len, of "?h + 6" le] D n by (simp add: reply_fields_sel add.commute)
  show "recv_addr d = pr_src pr" using D by (simp add: reply_fields_sel)
  show "map_option uint (peek d 8) = Some (pr_ttl pr)"
    using peek_in_range [OF len, of 8] D by (simp add: reply_fields_sel)
qed

theorem parse_reply_refines_spec_witness:
  "parse_reply (dgram example_short) = Some (Inl ShortPacket)
   \<and> wait_loop example_probe [example_short]
       = (Waiting, [EvSelect \<lparr>tv_sec = 0, tv_usec = 499900\<rparr>, EvRecvfrom])
   \<and> parse_reply (dgram example_iteration) = Some (Inr 20)
   \<and> map_option (ntohs True) (peek16 True (dgram example_iteration) 24) = Some 0x1234
   \<and> map_option uint (peek (dgram example_iteration) 8) = Some 64"
proof -
  note s = example_short_facts
  note t = parse_reply_refines_spec [OF s(1), of example_probe, THEN conjunct1, rule_format, OF s(2)]
  from t have 1: "parse_reply (dgram example_short) = Some (Inl ShortPacket)" by simp
  from t s(3,4,5) have 2: "wait_loop example_probe [example_short]
       = (Waiting, [EvSelect \<lparr>tv_sec = 0, tv_usec = 499900\<rparr>, EvRecvfrom])"
    by simp
  note u = parse_reply_refines_spec [OF example_iteration_facts(1), of example_probe True,
      THEN conjunct2, rule_format, OF example_iteration_spec(1)]
  from u have 3: "parse_reply (dgram example_iteration) = Some (Inr 20)"
    and 4: "map_option (ntohs True) (peek16 True (dgram example_iteration) 24) = Some 0x1234"
    and 5: "map_option uint (peek (dgram example_iteration) 8) = Some 64"
    by (simp_all add: example_iteration_spec(2))
  from 1 2 3 4 5 show ?thesis by (intro conjI)
qed

text \<open>
  Claim C10. Every read of the received buffer that the checks of lines 243--311 perform
  is at an offset below the received length: on a buffer that holds the received bytes,
  of any length, the checks yield a verdict and never a read outside the datagram. The
  ICMP header offset they use is at least 20 and ends within the received length. A run
  of main never reads outside a received datagram.
\<close>

theorem reads_within_datagram:
  "(\<forall>i. recv_len d \<le> i \<longrightarrow> peek d i = None)
   \<and> (recv_len d \<le> int (length (recv_buf d)) \<longrightarrow>
        (\<exists>r. parse_reply d = Some r)
      \<and> (\<forall>hl. parse_reply d = Some (Inr hl) \<longrightarrow>
             20 \<le> recv_len d \<and> 20 \<le> hl \<and> hl + 8 \<le> recv_len d
           \<and> (\<exists>m. check_reply p d hl = Some m))
      \<and> (\<exists>v. examine p d = Some v))
   \<and> ((\<forall>it \<in> set (iterations e). recv_len (dgram it) \<le> int (length (recv_buf (dgram it))))
        \<longrightarrow> fst (main e) \<noteq> Fault)"
proof (intro conjI impI allI)
  fix i assume "recv_len d \<le> i"
  then show "peek d i = None" by (simp add: peek_def)
next
  assume len: "recv_len d \<le> int (length (recv_buf d))"
  show "\<exists>r. parse_reply d = Some r" by (simp add: parse_reply_eq [OF len])
  show "\<exists>v. examine p d = Some v" by (simp add: examine_eq [OF len])
next
  fix hl
  assume len: "recv_len d \<le> int (length (recv_buf d))"
    and parsed: "parse_reply d = Some (Inr hl)"
  from parsed parse_reply_eq [OF len]
  obtain pr where spec: "parse_reply_spec d = Inr pr" and hl: "hl = header_length d"
    by (cases "parse_reply_spec d") auto
  note D = parse_reply_spec_InrD [OF spec]
  from D show "20 \<le> recv_len d" "20 \<le> hl" "hl + 8 \<le> recv_len d" by (simp_all add: hl)
  show "\<exists>m. check_reply p d hl = Some m" by (simp add: hl check_reply_eq [OF len spec])
next
  assume "\<forall>it \<in> set (iterations e). recv_len (dgram it) \<le> int (length (recv_buf (dgram it)))"
  then show "fst (main e) \<noteq> Fault" by (rule main_no_fault)
qed

theorem reads_within_datagram_witness:
  "peek (dgram example_short) 10 = None
   \<and> (\<exists>v. examine example_probe (dgram example_short) = Some v)
   \<and> (\<exists>m. check_reply example_probe (dgram example_iteration) 20 = Some m)
   \<and> fst (main example_env) \<noteq> Fault"
proof -
  note t = reads_within_datagram [of "dgram example_short" example_probe example_env]
  note u = reads_within_datagram [of "dgram example_iteration" example_probe example_env]
  have r: "recv_len (dgram example_short) \<le> 10" by (simp add: example_short_def)
  from t r have 1: "peek (dgram example_short) 10 = None" by blast
  from t example_short_facts(1) have 2: "\<exists>v. examine example_probe (dgram example_short) = Some v"
    by blast
  from u example_iteration_facts(1,2)
  have 3: "\<exists>m. check_reply example_probe (dgram example_iteration) 20 = Some m" by blast
  from t example_env_wf have 4: "fst (main example_env) \<noteq> Fault" by blast
  from 1 2 3 4 show ?thesis by (intro conjI)
qed

text \<open>
  Claim C1. A datagram that passes the checks of lines 243--275 is accepted exactly when
  its ICMP type is Echo Reply, its code 0, its identifier and sequence (read in network
  order) the expected ones and its sender the target: then the loop is left with the
  clock reading of line 310 and the TTL. If one of the five differs, the datagram is
  discarded and the loop goes on with its next round. The values main expects are the
  process id masked to 16 bits, the requested sequence and the resolved address.
\<close>

theorem reply_accepted_iff_match:
  assumes len: "recv_len (dgram it) \<le> int (length (recv_buf (dgram it)))"
    and parsed: "parse_reply (dgram it) = Some (Inr hl)"
    and rem: "remaining_time (deadline p) (now it) = Some rem"
    and sel: "0 < select_result it"
  shows "(is_match p (reply_fields (dgram it)) \<longrightarrow>
            examine p (dgram it) = Some (Matched (pr_ttl (reply_fields (dgram it))))
          \<and> wait_loop p (it # rest)
              = (Break (end_time it) (pr_ttl (reply_fields (dgram it))),
                 [EvSelect rem, EvRecvfrom]))
       \<and> (\<not> is_match p (reply_fields (dgram it)) \<longrightarrow>
            (\<exists>mm. examine p (dgram it) = Some (Discarded mm))
          \<and> wait_loop p (it # rest)
              = (fst (wait_loop p rest), [EvSelect rem, EvRecvfrom] @ snd (wait_loop p rest)))
       \<and> expected_id (make_probe e t s) = own_id (getpid e)
       \<and> uint (own_id (getpid e)) = getpid e mod 65536
       \<and> expected_seq (make_probe e t s) = s
       \<and> expected_addr (make_probe e t s) = dest_addr e"
proof -
  from parsed parse_reply_eq [OF len]
  obtain pr where spec: "parse_reply_spec (dgram it) = Inr pr"
    by (cases "parse_reply_spec (dgram it)") auto
  note D = parse_reply_spec_InrD [OF spec]
  from D(1) have rcv: "0 \<le> recv_len (dgram it)" by simp
  note step = wait_loop_step [OF len rem sel rcv, of rest]
  note ex = examine_eq [OF len, of p]
  from first_mismatch_cases [of p pr]
  have "(is_match p pr \<longrightarrow>
            examine p (dgram it) = Some (Matched (pr_ttl pr))
          \<and> wait_loop p (it # rest) = (Break (end_time it) (pr_ttl pr), [EvSelect rem, EvRecvfrom]))
       \<and> (\<not> is_match p pr \<longrightarrow>
            (\<exists>mm. examine p (dgram it) = Some (Discarded mm))
          \<and> wait_loop p (it # rest)
              = (fst (wait_loop p rest), [EvSelect rem, EvRecvfrom] @ snd (wait_loop p rest)))"
    unfolding step ex spec by auto
  then show ?thesis
    unfolding D(4) by (simp add: make_probe_def uint_own_id)
qed

theorem reply_accepted_iff_match_witness:
  "wait_loop example_probe [example_iteration]
     = (Break \<lparr>tv_sec = 100, tv_usec = 1500\<rparr> 64, [EvSelect \<lparr>tv_sec = 0, tv_usec = 499100\<rparr>, EvRecvfrom])
   \<and> wait_loop (example_probe\<lparr>expected_seq := 2\<rparr>) [example_iteration]
     = (Waiting, [EvSelect \<lparr>tv_sec = 0, tv_usec = 499100\<rparr>, EvRecvfrom])"
proof -
  note f = example_iteration_facts
  have m: "is_match example_probe (reply_fields (dgram example_iteration))"
    unfolding f(5) by (simp add: is_match_def example_probe_def ICMP_ECHOREPLY_def)
  have r2: "remaining_time (deadline (example_probe\<lparr>expected_seq := 2\<rparr>)) (now example_iteration)
     = Some \<lparr>tv_sec = 0, tv_usec = 499100\<rparr>"
    using f(3) by simp
  have n: "\<not> is_match (example_probe\<lparr>expected_seq := 2\<rparr>) (reply_fields (dgram example_iteration))"
    unfolding f(5) by (simp add: is_match_def example_probe_def)
  from reply_accepted_iff_match [OF f(1) f(2) f(3) f(4), of "[]"] m
  have a: "wait_loop example_probe [example_iteration]
     = (Break \<lparr>tv_sec = 100, tv_usec = 1500\<rparr> 64, [EvSelect \<lparr>tv_sec = 0, tv_usec = 499100\<rparr>, EvRecvfrom])"
    by (simp add: f(5)) (simp add: example_iteration_def)
  from reply_accepted_iff_match [OF f(1) f(2) r2 f(4), of "[]"] n
  have b: "wait_loop (example_probe\<lparr>expected_seq := 2\<rparr>) [example_iteration]
     = (Waiting, [EvSelect \<lparr>tv_sec = 0, tv_usec = 499100\<rparr>, EvRecvfrom])"
    by simp
  from a b show ?thesis by (rule conjI)
qed

section \<open>Properties of the program\<close>

text \<open>
  Claim C3. The deadline a run uses is \<open>start_time + timeout_ms\<close>, computed once before
  the loop (in whole seconds and microseconds). The timeout of the \<open>i\<close>-th \<^verbatim>\<open>select\<close>
  call is that deadline minus the clock reading of the \<open>i\<close>-th round, and positive: every
  wait ends at the original deadline at the latest, however many datagrams were
  discarded before. The loop's own timeout exit is taken only at a clock reading at or
  past the deadline.
\<close>

theorem deadline_fixed:
  assumes "wf_timeval (start_time e)" and "\<forall>it \<in> set (iterations e). wf_timeval (now it)"
  shows "(\<forall>s. deadline (make_probe e (long_value (timeout_arg e)) s)
               = compute_deadline (start_time e) (long_value (timeout_arg e)))
       \<and> (0 \<le> long_value (timeout_arg e) \<longrightarrow>
            to_usec (compute_deadline (start_time e) (long_value (timeout_arg e)))
            = to_usec (start_time e) + long_value (timeout_arg e) * 1000)
       \<and> length (select_timeouts (snd (main e))) \<le> length (iterations e)
       \<and> (\<forall>i < length (select_timeouts (snd (main e))).
            to_usec (select_timeouts (snd (main e)) ! i)
              = to_usec (start_time e) + long_value (timeout_arg e) * 1000
                - to_usec (now (iterations e ! i))
            \<and> 0 < to_usec (select_timeouts (snd (main e)) ! i))
       \<and> (fst (main e) = Exit ExTimeoutExpired \<longrightarrow>
            (\<exists>it \<in> set (iterations e).
               to_usec (start_time e) + long_value (timeout_arg e) * 1000 \<le> to_usec (now it)))"
proof -
  let ?T = "long_value (timeout_arg e)"
  have a: "\<forall>s. deadline (make_probe e ?T s) = compute_deadline (start_time e) ?T"
    by (simp add: make_probe_def)
  have b: "0 \<le> ?T \<longrightarrow> to_usec (compute_deadline (start_time e) ?T) = to_usec (start_time e) + ?T * 1000"
    using compute_deadline_usec(1) [OF assms(1)] by simp
  have c: "length (select_timeouts (snd (main e))) \<le> length (iterations e)
       \<and> (\<forall>i < length (select_timeouts (snd (main e))).
            to_usec (select_timeouts (snd (main e)) ! i)
              = to_usec (start_time e) + ?T * 1000 - to_usec (now (iterations e ! i))
            \<and> 0 < to_usec (select_timeouts (snd (main e)) ! i))
       \<and> (fst (main e) = Exit ExTimeoutExpired \<longrightarrow>
            (\<exists>it \<in> set (iterations e). to_usec (start_time e) + ?T * 1000 \<le> to_usec (now it)))"
  proof (cases e rule: main_cases)
    case (early x)
    then show ?thesis by auto
  next
    case sock
    then show ?thesis by simp
  next
    case conn
    then show ?thesis by simp
  next
    case (send pk)
    then show ?thesis by simp
  next
    case (loop s pk)
    let ?p = "make_probe e ?T s"
    let ?its = "iterations e"
    from loop(1) have T: "0 \<le> ?T" by simp
    have dl: "to_usec (deadline ?p) = to_usec (start_time e) + ?T * 1000"
      and wf: "wf_timeval (deadline ?p)"
      using compute_deadline_usec [OF assms(1) T] by (simp_all add: make_probe_def)
    obtain st evs where w: "wait_loop ?p ?its = (st, evs)" by (cases "wait_loop ?p ?its")
    note m = loop(3) [unfolded main_loop_result [OF w]]
    have sel: "select_timeouts (snd (main e)) = select_timeouts evs"
      unfolding m by (cases st) (simp_all add: select_timeouts_append)
    note L = wait_loop_selects [OF wf assms(2), unfolded w, simplified, folded sel]
    have len: "length (select_timeouts (snd (main e))) \<le> length ?its"
      using list_all2_lengthD [OF L] by simp
    have nth: "to_usec (select_timeouts (snd (main e)) ! i)
              = to_usec (start_time e) + ?T * 1000 - to_usec (now (?its ! i))
            \<and> 0 < to_usec (select_timeouts (snd (main e)) ! i)"
      if "i < length (select_timeouts (snd (main e)))" for i
      using list_all2_nthD [OF L that] that by (simp add: dl)
    have ex: "\<exists>it \<in> set ?its. to_usec (start_time e) + ?T * 1000 \<le> to_usec (now it)"
      if "fst (main e) = Exit ExTimeoutExpired"
    proof -
      from that m have "st = Exit ExTimeoutExpired" by (cases st) simp_all
      with w have "fst (wait_loop ?p ?its) = Exit ExTimeoutExpired" by simp
      from wait_loop_expired [OF wf assms(2) this] show ?thesis by (simp add: dl)
    qed
    from len nth ex show ?thesis by blast
  qed
  from a b c show ?thesis by blast
qed

theorem deadline_fixed_witness:
  "select_timeouts (snd (main example_env))
     = [\<lparr>tv_sec = 0, tv_usec = 499900\<rparr>, \<lparr>tv_sec = 0, tv_usec = 499100\<rparr>]
   \<and> to_usec \<lparr>tv_sec = 0, tv_usec = 499100\<rparr>
       = to_usec \<lparr>tv_sec = 100, tv_usec = 0\<rparr> + 500 * 1000 - to_usec \<lparr>tv_sec = 100, tv_usec = 900\<rparr>"
proof -
  have w1: "wf_timeval (start_time example_env)"
    by (simp add: example_env_def wf_timeval_def)
  have w2: "\<forall>it \<in> set (iterations example_env). wf_timeval (now it)"
    by (simp add: example_env_def example_short_def example_iteration_def wf_timeval_def)
  have s: "select_timeouts (snd (main example_env))
     = [\<lparr>tv_sec = 0, tv_usec = 499900\<rparr>, \<lparr>tv_sec = 0, tv_usec = 499100\<rparr>]"
    by (simp add: main_example)
  from deadline_fixed [OF w1 w2]
  have "\<forall>i < length (select_timeouts (snd (main example_env))).
            to_usec (select_timeouts (snd (main example_env)) ! i)
              = to_usec (start_time example_env) + long_value (timeout_arg example_env) * 1000
                - to_usec (now (iterations example_env ! i))
            \<and> 0 < to_usec (select_timeouts (snd (main example_env)) ! i)"
    by blast
  from this [rule_format, of 1]
  have "to_usec \<lparr>tv_sec = 0, tv_usec = 499100\<rparr>
              = to_usec (start_time example_env) + long_value (timeout_arg example_env) * 1000
                - to_usec (now (iterations example_env ! 1))"
    by (simp add: s)
  then have "to_usec \<lparr>tv_sec = 0, tv_usec = 499100\<rparr>
       = to_usec \<lparr>tv_sec = 100, tv_usec = 0\<rparr> + 500 * 1000 - to_usec \<lparr>tv_sec = 100, tv_usec = 900\<rparr>"
    by (simp add: example_env_def example_iteration_def)
  with s show ?thesis by (rule conjI)
qed






text \<open>
  A run that gets as far as the loop, in which no system call fails and no datagram
  matches, and whose clock readings reach the deadline, returns through one of the two
  timeout exits (lines 206 and 226), both with the value 7.
\<close>

lemma timeout_without_match:
  assumes st: "wf_timeval (start_time e)"
    and ok: "\<forall>it \<in> set (iterations e). wf_timeval (now it) \<and> 0 \<le> select_result it
               \<and> 0 \<le> recv_len (dgram it)
               \<and> recv_len (dgram it) \<le> int (length (recv_buf (dgram it)))
               \<and> (\<forall>s ttl. examine (make_probe e (long_value (timeout_arg e)) s) (dgram it)
                      \<noteq> Some (Matched ttl))"
    and late: "\<exists>it \<in> set (iterations e).
                 to_usec (start_time e) + long_value (timeout_arg e) * 1000 \<le> to_usec (now it)"
  shows "\<exists>x. fst (main e) = Exit x
           \<and> (x \<in> {ExUsage, ExBadTimeout, ExBadSeq, ExResolve, ExSocket, ExConnect, ExSendto}
              \<or> (x \<in> {ExTimeoutExpired, ExTimeoutSelect} \<and> exit_code x = 7))"
proof (cases e rule: main_cases)
  case (early x)
  then show ?thesis by auto
next
  case sock
  then show ?thesis by simp
next
  case conn
  then show ?thesis by simp
next
  case (send pk)
  then show ?thesis by simp
next
  case (loop s pk)
  let ?T = "long_value (timeout_arg e)"
  let ?p = "make_probe e ?T s"
  from loop(1) have T: "0 \<le> ?T" by simp
  have dl: "to_usec (deadline ?p) = to_usec (start_time e) + ?T * 1000"
    and wf: "wf_timeval (deadline ?p)"
    using compute_deadline_usec [OF st T] by (simp_all add: make_probe_def)
  from ok have ok': "\<forall>it \<in> set (iterations e). wf_timeval (now it) \<and> 0 \<le> select_result it
               \<and> 0 \<le> recv_len (dgram it)
               \<and> recv_len (dgram it) \<le> int (length (recv_buf (dgram it)))
               \<and> (\<forall>ttl. examine ?p (dgram it) \<noteq> Some (Matched ttl))" by blast
  from late have late': "\<exists>it \<in> set (iterations e). to_usec (deadline ?p) \<le> to_usec (now it)"
    by (simp only: dl)
  obtain st evs where w: "wait_loop ?p (iterations e) = (st, evs)"
    by (cases "wait_loop ?p (iterations e)")
  note m = loop(3) [unfolded main_loop_result [OF w]]
  from wait_loop_times_out [OF wf ok' late'] w
  have "st = Exit ExTimeoutExpired \<or> st = Exit ExTimeoutSelect" by simp
  with m show ?thesis by auto
qed

end
